theory Spec2Isabelle
  imports Main "HOL-Library.Char_ord" "HOL-Library.List_Lexorder"
begin

section \<open>Python values, exceptions and the clock\<close>

text \<open>
  Exceptions are values. Each constructor carries the text that \<^verbatim>\<open>str(e)\<close> yields,
  because the callers format it into their own messages.
\<close>

datatype error = ValueError string | TypeError string | OSError string

fun str_error :: "error \<Rightarrow> string" where
  "str_error (ValueError m) = m"
| "str_error (TypeError m) = m"
| "str_error (OSError m) = m"

text \<open>
  A \<^verbatim>\<open>datetime\<close> is an instant counted in microseconds; a \<^verbatim>\<open>timedelta\<close> is a number of
  microseconds. Every reading of \<^verbatim>\<open>datetime.now()\<close> is an argument of the function that
  reads the clock.
\<close>

type_synonym datetime = int

definition timedelta_seconds :: "int \<Rightarrow> int" where
  "timedelta_seconds s = s * 1000000"

definition timedelta_hours :: "int \<Rightarrow> int" where
  "timedelta_hours h = h * 3600000000"

text \<open>
  The values a metadata dictionary stores under \<^verbatim>\<open>'created_at'\<close> are dynamically typed.
  \<^verbatim>\<open>a < b\<close> is defined between two strings and between two datetimes; between a string
  and a datetime Python 3 raises \<^verbatim>\<open>TypeError\<close>.
\<close>

datatype pyval = PyNone | PyStr string | PyDatetime datetime

fun truthy :: "pyval \<Rightarrow> bool" where
  "truthy PyNone = False"
| "truthy (PyStr s) = (s \<noteq> [])"
| "truthy (PyDatetime t) = True"

fun py_type_name :: "pyval \<Rightarrow> string" where
  "py_type_name PyNone = ''NoneType''"
| "py_type_name (PyStr s) = ''str''"
| "py_type_name (PyDatetime t) = ''datetime.datetime''"

fun py_lt :: "pyval \<Rightarrow> pyval \<Rightarrow> error + bool" where
  "py_lt (PyStr a) (PyStr b) = Inr (a < b)"
| "py_lt (PyDatetime a) (PyDatetime b) = Inr (a < b)"
| "py_lt a b = Inl (TypeError (''not supported between instances of '' @
                       py_type_name a @ '' and '' @ py_type_name b))"

definition try_except :: "error + 'a \<Rightarrow> (error \<Rightarrow> error + 'a) \<Rightarrow> error + 'a" where
  "try_except body handler = (case body of Inl e \<Rightarrow> handler e | Inr v \<Rightarrow> Inr v)"

section \<open>Strings and paths (the library functions the store calls)\<close>

text \<open>\<^verbatim>\<open>s.rfind(c)\<close>: the index of the last occurrence of \<open>c\<close>, or \<open>-1\<close>.\<close>

definition rfind :: "char \<Rightarrow> string \<Rightarrow> int" where
  "rfind c s = (if c \<in> set s
                then int (length s) - 1 - int (length (takeWhile (\<lambda>x. x \<noteq> c) (rev s)))
                else - 1)"

text \<open>\<^verbatim>\<open>s.split(c)\<close> for a one-character separator.\<close>

fun split_sep :: "char \<Rightarrow> string \<Rightarrow> string list" where
  "split_sep c [] = [[]]"
| "split_sep c (x # xs) =
     (if x = c then [] # split_sep c xs
      else (case split_sep c xs of [] \<Rightarrow> [[x]] | p # ps \<Rightarrow> (x # p) # ps))"

text \<open>
  \<^verbatim>\<open>Path(p).name\<close> on a POSIX system: the last component of the path, where empty
  components and \<^verbatim>\<open>.\<close> components are dropped; the empty string when none is left.
\<close>

definition path_name :: "string \<Rightarrow> string" where
  "path_name p =
     (case filter (\<lambda>c. c \<noteq> [] \<and> c \<noteq> ''.'') (split_sep CHR ''/'' p) of
        [] \<Rightarrow> []
      | c # cs \<Rightarrow> last (c # cs))"

text \<open>\<^verbatim>\<open>Path(p).suffix\<close>: the name from its last dot on, unless that dot is first or last.\<close>

definition path_suffix :: "string \<Rightarrow> string" where
  "path_suffix p =
     (let name = path_name p; i = rfind CHR ''.'' name
      in if 0 < i \<and> i < int (length name) - 1 then drop (nat i) name else [])"

text \<open>
  \<^verbatim>\<open>dir / name\<close>: an absolute right operand replaces the left one.
\<close>

definition path_join :: "string \<Rightarrow> string \<Rightarrow> string" where
  "path_join d n = (if take 1 n = ''/'' then n else d @ ''/'' @ n)"

text \<open>
  \<^verbatim>\<open>s.replace(old, new)\<close> for a non-empty \<open>old\<close>: occurrences are found from the left
  and do not overlap.
\<close>

function str_replace :: "string \<Rightarrow> string \<Rightarrow> string \<Rightarrow> string" where
  "str_replace old new [] = []"
| "str_replace old new (x # xs) =
     (if old \<noteq> [] \<and> take (length old) (x # xs) = old
      then new @ str_replace old new (drop (length old - 1) xs)
      else x # str_replace old new xs)"
  by pat_completeness auto
termination
  by (relation "measure (\<lambda>(old, new, s). length s)") auto

text \<open>
  \<^verbatim>\<open>os.path.splitext(p)\<close> (posixpath): split at the last dot, provided it comes after
  the last slash and some character between that slash and the dot is not a dot.
\<close>

definition splitext :: "string \<Rightarrow> string \<times> string" where
  "splitext p =
     (let sepIndex = rfind CHR ''/'' p; dotIndex = rfind CHR ''.'' p
      in if dotIndex > sepIndex \<and>
            list_ex (\<lambda>c. c \<noteq> CHR ''.'')
              (take (nat (dotIndex - (sepIndex + 1))) (drop (nat (sepIndex + 1)) p))
         then (take (nat dotIndex) p, drop (nat dotIndex) p)
         else (p, []))"

section \<open>FileManager\<close>

text \<open>The four strings \<^verbatim>\<open>_sanitize_filename\<close> replaces, in the order of the source.\<close>

definition dangerous_chars :: "string list" where
  "dangerous_chars = [''..'', ''/'', [CHR 0x5C], [CHR 0x00]]"

definition sanitize_filename :: "string \<Rightarrow> string" where
  "sanitize_filename original =
     (let filename = path_name original;
          filename = fold (\<lambda>ch f. str_replace ch ''_'' f) dangerous_chars filename;
          filename = (if length filename > 255
                      then (case splitext filename of (name, ext) \<Rightarrow> take 250 name @ ext)
                      else filename)
      in if filename = [] then ''document.pdf'' else filename)"

text \<open>One entry of \<^verbatim>\<open>self.metadata\<close>; the key \<^verbatim>\<open>'type'\<close> is the field \<open>kind\<close>.\<close>

record file_meta =
  filename :: string
  path :: string
  mime_type :: string
  size_bytes :: nat
  created_at :: pyval
  kind :: string

text \<open>
  \<^verbatim>\<open>self.metadata\<close> is a dict, which keeps insertion order: an association list with one
  pair per key.
\<close>

type_synonym metadata_dict = "(string \<times> file_meta) list"

fun dict_set :: "string \<Rightarrow> file_meta \<Rightarrow> metadata_dict \<Rightarrow> metadata_dict" where
  "dict_set k v [] = [(k, v)]"
| "dict_set k v ((k', v') # d) =
     (if k = k' then (k, v) # d else (k', v') # dict_set k v d)"

definition dict_del :: "string \<Rightarrow> metadata_dict \<Rightarrow> metadata_dict" where
  "dict_del k d = filter (\<lambda>kv. fst kv \<noteq> k) d"

definition dict_keys :: "metadata_dict \<Rightarrow> string list" where
  "dict_keys d = map fst d"

record file_manager =
  uploads_dir :: string
  results_dir :: string
  metadata :: metadata_dict

text \<open>
  The disk: the files that exist with their bytes, and what the operating system answers
  to an \<^verbatim>\<open>unlink\<close> and to a \<^verbatim>\<open>write_bytes\<close> of each path.
\<close>

type_synonym bytes = "char list"

datatype write_result = WriteOk | OpenFails | WriteFailsAfter nat

record disk =
  files :: "string \<Rightarrow> bytes option"
  unlink_fails :: "string \<Rightarrow> bool"
  write_behaviour :: "string \<Rightarrow> write_result"

type_synonym store = "file_manager \<times> disk"

definition path_exists :: "disk \<Rightarrow> string \<Rightarrow> bool" where
  "path_exists d p = (files d p \<noteq> None)"

definition unlink :: "disk \<Rightarrow> string \<Rightarrow> error + disk" where
  "unlink d p =
     (if unlink_fails d p then Inl (OSError (''Permission denied: '' @ p))
      else Inr (d\<lparr>files := (files d)(p := None)\<rparr>))"

definition get_file_path :: "file_manager \<Rightarrow> string \<Rightarrow> error + string" where
  "get_file_path fm file_id =
     (case map_of (metadata fm) file_id of
        None \<Rightarrow> Inl (ValueError (''File not found: '' @ file_id))
      | Some m \<Rightarrow> Inr (path m))"

definition get_file_info :: "file_manager \<Rightarrow> string \<Rightarrow> error + file_meta" where
  "get_file_info fm file_id =
     (case map_of (metadata fm) file_id of
        None \<Rightarrow> Inl (ValueError (''File not found: '' @ file_id))
      | Some m \<Rightarrow> Inr m)"

definition file_exists :: "store \<Rightarrow> string \<Rightarrow> bool" where
  "file_exists st file_id =
     (case map_of (metadata (fst st)) file_id of
        None \<Rightarrow> False
      | Some m \<Rightarrow> path_exists (snd st) (path m))"

text \<open>
  The body of the \<^verbatim>\<open>try\<close> in \<^verbatim>\<open>delete_file\<close>: the unlink comes before the \<^verbatim>\<open>del\<close>, so an
  unlink that raises leaves both the disk and the dict as they were.
\<close>

definition delete_file_body :: "store \<Rightarrow> string \<Rightarrow> error + store" where
  "delete_file_body st file_id =
     (case map_of (metadata (fst st)) file_id of
        None \<Rightarrow> Inr st
      | Some m \<Rightarrow>
          (if path_exists (snd st) (path m)
           then (case unlink (snd st) (path m) of
                   Inl e \<Rightarrow> Inl e
                 | Inr d' \<Rightarrow>
                     Inr ((fst st)\<lparr>metadata := dict_del file_id (metadata (fst st))\<rparr>, d'))
           else Inr ((fst st)\<lparr>metadata := dict_del file_id (metadata (fst st))\<rparr>, snd st)))"

text \<open>\<^verbatim>\<open>except Exception\<close> logs a warning and returns normally.\<close>

definition delete_file :: "store \<Rightarrow> string \<Rightarrow> error + store" where
  "delete_file st file_id = try_except (delete_file_body st file_id) (\<lambda>e. Inr st)"

text \<open>
  The location \<^verbatim>\<open>save_upload\<close> writes to:
  \<^verbatim>\<open>self.uploads_dir / f"{file_id}{file_extension}"\<close>, the extension being the suffix of
  the sanitized name, or \<^verbatim>\<open>.pdf\<close> when it has none.
\<close>

definition upload_file_path :: "file_manager \<Rightarrow> string \<Rightarrow> string \<Rightarrow> string" where
  "upload_file_path fm file_id original_filename =
     (let safe_filename = sanitize_filename original_filename;
          file_extension = (if path_suffix safe_filename = [] then ''.pdf''
                            else path_suffix safe_filename)
      in path_join (uploads_dir fm) (file_id @ file_extension))"

text \<open>
  \<^verbatim>\<open>file_path.write_bytes(content)\<close>. A write that fails after the file was opened leaves
  the bytes written so far on the disk.
\<close>

definition write_bytes :: "disk \<Rightarrow> string \<Rightarrow> bytes \<Rightarrow> (error + unit) \<times> disk" where
  "write_bytes d p content =
     (case write_behaviour d p of
        WriteOk \<Rightarrow> (Inr (), d\<lparr>files := (files d)(p \<mapsto> content)\<rparr>)
      | OpenFails \<Rightarrow> (Inl (OSError (''Permission denied: '' @ p)), d)
      | WriteFailsAfter k \<Rightarrow>
          (Inl (OSError (''No space left on device: '' @ p)),
           d\<lparr>files := (files d)(p \<mapsto> take k content)\<rparr>))"

text \<open>
  \<^verbatim>\<open>save_upload\<close>. The generated \<^verbatim>\<open>str(uuid.uuid4())\<close> and the text of
  \<^verbatim>\<open>datetime.utcnow().isoformat()\<close> are arguments. The result is the outcome together with
  the store the call leaves behind, also when it raises.
\<close>

definition save_upload ::
  "store \<Rightarrow> string \<Rightarrow> string \<Rightarrow> bytes \<Rightarrow> string \<Rightarrow> (error + string) \<times> store" where
  "save_upload st file_id now_iso content original_filename =
     (let fm = fst st;
          safe_filename = sanitize_filename original_filename;
          file_path = upload_file_path fm file_id original_filename
      in case write_bytes (snd st) file_path content of
           (Inl e, d') \<Rightarrow>
             (Inl (ValueError (''Failed to save file: '' @ str_error e)), (fm, d'))
         | (Inr u, d') \<Rightarrow>
             (Inr file_id,
              (fm\<lparr>metadata := dict_set file_id
                     \<lparr>filename = safe_filename, path = file_path,
                      mime_type = ''application/pdf'', size_bytes = length content,
                      created_at = PyStr now_iso, kind = ''upload''\<rparr>
                     (metadata fm)\<rparr>, d')))"

text \<open>
  The stores another thread can observe while \<^verbatim>\<open>save_upload\<close> runs, in order: the store
  before the call, the store with each prefix of the content on the disk while
  \<^verbatim>\<open>write_bytes\<close> is under way, and, when the write succeeded, the store after the dict
  assignment.
\<close>

definition during_write :: "store \<Rightarrow> string \<Rightarrow> bytes \<Rightarrow> nat \<Rightarrow> store" where
  "during_write st p content k =
     (fst st, (snd st)\<lparr>files := (files (snd st))(p \<mapsto> take k content)\<rparr>)"

definition save_upload_states ::
  "store \<Rightarrow> string \<Rightarrow> string \<Rightarrow> bytes \<Rightarrow> string \<Rightarrow> store list" where
  "save_upload_states st file_id now_iso content original_filename =
     (let p = upload_file_path (fst st) file_id original_filename;
          n = length content
      in case write_behaviour (snd st) p of
           OpenFails \<Rightarrow> [st]
         | WriteFailsAfter k \<Rightarrow> st # map (during_write st p content) [0..<Suc (min k n)]
         | WriteOk \<Rightarrow>
             st # map (during_write st p content) [0..<Suc n] @
             [snd (save_upload st file_id now_iso content original_filename)])"

text \<open>
  \<^verbatim>\<open>cleanup_old_files\<close>: the loop over \<^verbatim>\<open>list(self.metadata.keys())\<close>. The result carries
  the store reached so far, because what was deleted before an exception stays deleted.
\<close>

fun cleanup_loop ::
  "datetime \<Rightarrow> string list \<Rightarrow> store \<Rightarrow> nat \<Rightarrow> (error + nat) \<times> store" where
  "cleanup_loop cutoff_time [] st deleted_count = (Inr deleted_count, st)"
| "cleanup_loop cutoff_time (file_id # file_ids) st deleted_count =
     (case map_of (metadata (fst st)) file_id of
        None \<Rightarrow> cleanup_loop cutoff_time file_ids st deleted_count
      | Some m \<Rightarrow>
          (if truthy (created_at m)
           then (case py_lt (created_at m) (PyDatetime cutoff_time) of
                   Inl e \<Rightarrow> (Inl e, st)
                 | Inr b \<Rightarrow>
                     (if b
                      then (case delete_file st file_id of
                              Inl e \<Rightarrow> (Inl e, st)
                            | Inr st' \<Rightarrow>
                                cleanup_loop cutoff_time file_ids st' (deleted_count + 1))
                      else cleanup_loop cutoff_time file_ids st deleted_count))
           else cleanup_loop cutoff_time file_ids st deleted_count))"

definition cleanup_old_files :: "store \<Rightarrow> datetime \<Rightarrow> int \<Rightarrow> nat \<times> store" where
  "cleanup_old_files st now hours =
     (case cleanup_loop (now - timedelta_hours hours) (dict_keys (metadata (fst st))) st 0 of
        (Inl e, st') \<Rightarrow> (0, st')
      | (Inr deleted_count, st') \<Rightarrow> (deleted_count, st'))"

section \<open>Deferred deletion\<close>

text \<open>
  \<^verbatim>\<open>schedule_cleanup\<close> is a coroutine: \<^verbatim>\<open>await asyncio.sleep(delay_seconds)\<close>, then
  \<^verbatim>\<open>self.delete_file(file_id)\<close>. Every call is a coroutine of its own, suspended in its
  sleep until its wake time; the event loop holds the suspended ones.
\<close>

datatype cleanup_task = Sleeping (wake_at: datetime) (target: string)

definition schedule_cleanup ::
  "cleanup_task list \<Rightarrow> datetime \<Rightarrow> string \<Rightarrow> int \<Rightarrow> cleanup_task list" where
  "schedule_cleanup tasks now file_id delay_seconds =
     tasks @ [Sleeping (now + timedelta_seconds delay_seconds) file_id]"

definition pending_deadlines :: "cleanup_task list \<Rightarrow> string \<Rightarrow> datetime list" where
  "pending_deadlines tasks file_id =
     map wake_at (filter (\<lambda>t. target t = file_id) tasks)"

text \<open>A coroutine whose sleep is over runs \<^verbatim>\<open>delete_file\<close> and ends.\<close>

definition resume_cleanup :: "store \<Rightarrow> cleanup_task \<Rightarrow> store" where
  "resume_cleanup st task =
     (case delete_file st (target task) of Inl e \<Rightarrow> st | Inr st' \<Rightarrow> st')"

text \<open>
  The event loop at time \<open>now\<close>: the coroutines whose wake time has come are resumed,
  earliest first; the others stay suspended.
\<close>

definition run_due :: "datetime \<Rightarrow> cleanup_task list \<times> store \<Rightarrow> cleanup_task list \<times> store" where
  "run_due now ts =
     (filter (\<lambda>t. now < wake_at t) (fst ts),
      fold (\<lambda>t st. resume_cleanup st t)
        (sort_key wake_at (filter (\<lambda>t. wake_at t \<le> now) (fst ts))) (snd ts))"

section \<open>The download endpoint\<close>

datatype http_exception = HTTPException (status_code: nat) (detail: string)

datatype exn = Http http_exception | Py error

record file_response =
  response_path :: string
  response_filename :: string
  media_type :: string

text \<open>The body of the \<^verbatim>\<open>try\<close> in \<^verbatim>\<open>download_file\<close>.\<close>

definition download_file_body :: "store \<Rightarrow> string \<Rightarrow> exn + file_response" where
  "download_file_body st file_id =
     (case get_file_path (fst st) file_id of
        Inl e \<Rightarrow> Inl (Py e)
      | Inr file_path \<Rightarrow>
          (if \<not> path_exists (snd st) file_path
           then Inl (Http (HTTPException 404 (''File not found or has expired: '' @ file_id)))
           else (case get_file_info (fst st) file_id of
                   Inl e \<Rightarrow> Inl (Py e)
                 | Inr file_info \<Rightarrow>
                     Inr \<lparr>response_path = file_path,
                          response_filename = filename file_info,
                          media_type = mime_type file_info\<rparr>)))"

text \<open>
  \<^verbatim>\<open>except HTTPException: raise\<close> comes first; any other exception becomes a 500.
\<close>

definition download_file :: "store \<Rightarrow> string \<Rightarrow> http_exception + file_response" where
  "download_file st file_id =
     (case download_file_body st file_id of
        Inl (Http h) \<Rightarrow> Inl h
      | Inl (Py e) \<Rightarrow> Inl (HTTPException 500 (''Failed to download file: '' @ str_error e))
      | Inr r \<Rightarrow> Inr r)"

section \<open>RateLimiter\<close>

text \<open>
  \<^verbatim>\<open>self.requests\<close> is a \<^verbatim>\<open>defaultdict(list)\<close>: every identity has a list, empty until
  something is recorded.
\<close>

record rate_limiter =
  requests :: "string \<Rightarrow> datetime list"
  upload_requests :: "string \<Rightarrow> datetime list"

definition clean_old_requests :: "rate_limiter \<Rightarrow> datetime \<Rightarrow> string \<Rightarrow> int \<Rightarrow> rate_limiter" where
  "clean_old_requests rl now ip window_seconds =
     (let cutoff = now - timedelta_seconds window_seconds
      in rl\<lparr>requests := (requests rl)(ip := filter (\<lambda>timestamp. timestamp > cutoff)
                                                (requests rl ip))\<rparr>)"

text \<open>
  \<^verbatim>\<open>is_allowed\<close> reads the clock twice: \<open>now\<close> inside \<^verbatim>\<open>_clean_old_requests\<close> and
  \<open>now'\<close> for the timestamp it appends.
\<close>

definition is_allowed ::
  "rate_limiter \<Rightarrow> datetime \<Rightarrow> datetime \<Rightarrow> string \<Rightarrow> int \<Rightarrow> int \<Rightarrow> bool \<times> rate_limiter" where
  "is_allowed rl now now' ip max_requests window_seconds =
     (let rl1 = clean_old_requests rl now ip window_seconds
      in if int (length (requests rl1 ip)) \<ge> max_requests then (False, rl1)
         else (True, rl1\<lparr>requests := (requests rl1)(ip := requests rl1 ip @ [now'])\<rparr>))"

definition new_rate_limiter :: rate_limiter where
  "new_rate_limiter = \<lparr>requests = (\<lambda>ip. []), upload_requests = (\<lambda>ip. [])\<rparr>"

section \<open>CleanupScheduler\<close>

text \<open>
  A task running \<^verbatim>\<open>_cleanup_loop\<close> is in one of three places: created by
  \<^verbatim>\<open>asyncio.create_task\<close> and not yet run, suspended in \<^verbatim>\<open>asyncio.sleep\<close>, or past the end
  of the \<^verbatim>\<open>while\<close>. \<open>sweeps\<close> counts the calls of \<^verbatim>\<open>_run_cleanup\<close>.
\<close>

datatype loop_state = Created | Asleep | Exited

record cleanup_scheduler =
  is_running :: bool
  loops :: "loop_state list"
  sweeps :: nat

definition new_scheduler :: cleanup_scheduler where
  "new_scheduler = \<lparr>is_running = False, loops = [], sweeps = 0\<rparr>"

definition start :: "cleanup_scheduler \<Rightarrow> cleanup_scheduler" where
  "start s = (if is_running s then s
              else s\<lparr>is_running := True, loops := loops s @ [Created]\<rparr>)"

definition stop :: "cleanup_scheduler \<Rightarrow> cleanup_scheduler" where
  "stop s = s\<lparr>is_running := False\<rparr>"

text \<open>
  The event loop resumes task \<open>i\<close>. A created task evaluates the \<^verbatim>\<open>while\<close> condition and
  goes to sleep or ends. A task whose sleep is over runs \<^verbatim>\<open>_run_cleanup\<close> first and only
  then evaluates the condition again.
\<close>

definition resume_loop :: "cleanup_scheduler \<Rightarrow> nat \<Rightarrow> cleanup_scheduler" where
  "resume_loop s i =
     (if i < length (loops s)
      then (case loops s ! i of
              Created \<Rightarrow> s\<lparr>loops := (loops s)[i := (if is_running s then Asleep else Exited)]\<rparr>
            | Asleep \<Rightarrow> s\<lparr>loops := (loops s)[i := (if is_running s then Asleep else Exited)],
                          sweeps := sweeps s + 1\<rparr>
            | Exited \<Rightarrow> s)
      else s)"

datatype event = Start | Stop | Resume nat

fun step :: "cleanup_scheduler \<Rightarrow> event \<Rightarrow> cleanup_scheduler" where
  "step s Start = start s"
| "step s Stop = stop s"
| "step s (Resume i) = resume_loop s i"

definition run_events :: "cleanup_scheduler \<Rightarrow> event list \<Rightarrow> cleanup_scheduler" where
  "run_events s evs = foldl step s evs"

definition asleep_count :: "cleanup_scheduler \<Rightarrow> nat" where
  "asleep_count s = length (filter (\<lambda>l. l = Asleep) (loops s))"

section \<open>Predicates and example stores\<close>

text \<open>
  \<^verbatim>\<open>delete_file\<close> reaches \<^verbatim>\<open>file_path.unlink()\<close> and the call raises: the id is known,
  its file is on the disk, and the operating system refuses the unlink.
\<close>

definition unlink_raises :: "store \<Rightarrow> string \<Rightarrow> bool" where
  "unlink_raises st file_id =
     (case map_of (metadata (fst st)) file_id of
        None \<Rightarrow> False
      | Some m \<Rightarrow> path_exists (snd st) (path m) \<and> unlink_fails (snd st) (path m))"

text \<open>
  The disk refuses to unlink the file of this id (whether or not the file is there). An
  unknown id has no file to refuse.
\<close>

definition unlink_refused :: "store \<Rightarrow> string \<Rightarrow> bool" where
  "unlink_refused st file_id =
     (case map_of (metadata (fst st)) file_id of
        None \<Rightarrow> False
      | Some m \<Rightarrow> unlink_fails (snd st) (path m))"

text \<open>\<^verbatim>\<open>sub in s\<close> for strings.\<close>

fun contains :: "string \<Rightarrow> string \<Rightarrow> bool" where
  "contains sub [] = (sub = [])"
| "contains sub (x # xs) = (take (length sub) (x # xs) = sub \<or> contains sub xs)"

text \<open>
  A store right after \<^verbatim>\<open>initialize\<close>, the same store after one upload, and two variants of
  the latter: one whose disk refuses every unlink, one whose file has vanished from the
  disk.
\<close>

definition empty_store :: store where
  "empty_store =
     (\<lparr>uploads_dir = ''/tmp/vpa/uploads'', results_dir = ''/tmp/vpa/results'', metadata = []\<rparr>,
      \<lparr>files = (\<lambda>p. None), unlink_fails = (\<lambda>p. False), write_behaviour = (\<lambda>p. WriteOk)\<rparr>)"

definition uploaded_store :: store where
  "uploaded_store =
     snd (save_upload empty_store ''id1'' ''2024-01-01T00:00:00.000000'' ''%PDF-1.4'' ''a.pdf'')"

definition locked_store :: store where
  "locked_store = (fst uploaded_store, (snd uploaded_store)\<lparr>unlink_fails := (\<lambda>p. True)\<rparr>)"

definition orphaned_store :: store where
  "orphaned_store = (fst uploaded_store, (snd uploaded_store)\<lparr>files := (\<lambda>p. None)\<rparr>)"

text \<open>A store like \<open>empty_store\<close> whose disk fills up after three bytes of any write.\<close>

definition full_disk_store :: store where
  "full_disk_store = (fst empty_store, (snd empty_store)\<lparr>write_behaviour := (\<lambda>p. WriteFailsAfter 3)\<rparr>)"

text \<open>
  What another thread may see of an upload under way: if the id has a metadata entry, the
  file at \<open>p\<close> holds the whole content.
\<close>

definition fully_written :: "string \<Rightarrow> string \<Rightarrow> bytes \<Rightarrow> store \<Rightarrow> bool" where
  "fully_written file_id p content s =
     (map_of (metadata (fst s)) file_id \<noteq> None \<longrightarrow> files (snd s) p = Some content)"

text \<open>
  A client calling \<^verbatim>\<open>is_allowed\<close> once at each of the given instants; the two clock readings
  of one call give the same instant. The answers are returned in order.
\<close>

fun is_allowed_at_times ::
  "rate_limiter \<Rightarrow> string \<Rightarrow> int \<Rightarrow> int \<Rightarrow> datetime list \<Rightarrow> bool list" where
  "is_allowed_at_times rl ip max_requests window_seconds [] = []"
| "is_allowed_at_times rl ip max_requests window_seconds (t # ts) =
     (case is_allowed rl t t ip max_requests window_seconds of
        (answer, rl') \<Rightarrow> answer # is_allowed_at_times rl' ip max_requests window_seconds ts)"

section \<open>Facts about the example stores\<close>

lemma sanitize_a_pdf: "sanitize_filename ''a.pdf'' = ''a.pdf''"
  by code_simp

lemma upload_path_id1:
  "upload_file_path (fst empty_store) ''id1'' ''a.pdf'' = ''/tmp/vpa/uploads/id1.pdf''"
  by code_simp

lemma uploaded_store_eq:
  "uploaded_store =
     (\<lparr>uploads_dir = ''/tmp/vpa/uploads'', results_dir = ''/tmp/vpa/results'',
       metadata = [(''id1'', \<lparr>filename = ''a.pdf'', path = ''/tmp/vpa/uploads/id1.pdf'',
                      mime_type = ''application/pdf'', size_bytes = 8,
                      created_at = PyStr ''2024-01-01T00:00:00.000000'', kind = ''upload''\<rparr>)]\<rparr>,
      \<lparr>files = (\<lambda>p. None)(''/tmp/vpa/uploads/id1.pdf'' \<mapsto> ''%PDF-1.4''),
       unlink_fails = (\<lambda>p. False), write_behaviour = (\<lambda>p. WriteOk)\<rparr>)"
proof -
  have w: "write_behaviour (snd empty_store) ''/tmp/vpa/uploads/id1.pdf'' = WriteOk"
    by (simp add: empty_store_def)
  show ?thesis
    unfolding uploaded_store_def save_upload_def Let_def write_bytes_def upload_path_id1
      sanitize_a_pdf w
    by (simp add: empty_store_def)
qed

section \<open>Deleting a file\<close>

lemma map_of_dict_del [simp]: "map_of (dict_del k d) k = None"
  by (induction d) (auto simp: dict_del_def)

lemma delete_file_absent:
  "map_of (metadata (fst st)) file_id = None \<Longrightarrow> delete_file st file_id = Inr st"
  by (simp add: delete_file_def delete_file_body_def try_except_def)

lemma delete_file_total: "\<exists>st'. delete_file st file_id = Inr st'"
  by (auto simp: delete_file_def delete_file_body_def try_except_def
           split: option.splits sum.splits)

lemma delete_file_unlink_raises:
  "unlink_raises st file_id \<Longrightarrow> delete_file st file_id = Inr st"
  by (auto simp: delete_file_def delete_file_body_def try_except_def unlink_raises_def
                 unlink_def split: option.splits sum.splits)

lemma delete_file_removes:
  "\<not> unlink_raises st file_id \<Longrightarrow> delete_file st file_id = Inr st' \<Longrightarrow>
   map_of (metadata (fst st')) file_id = None"
  by (auto simp: delete_file_def delete_file_body_def try_except_def unlink_raises_def
                 unlink_def split: option.splits sum.splits if_splits)

text \<open>
  Claim C10. \<^verbatim>\<open>delete_file\<close> never propagates an exception: for every store and every id it
  returns normally. If the unlink raises, the call returns the store it was given, so the
  id's metadata entry is still there and a later call can try again.
\<close>

theorem delete_file_never_raises:
  "(\<exists>st'. delete_file st file_id = Inr st') \<and>
   (unlink_raises st file_id \<longrightarrow>
      delete_file st file_id = Inr st \<and> map_of (metadata (fst st)) file_id \<noteq> None)"
  using delete_file_total delete_file_unlink_raises
  by (auto simp: unlink_raises_def split: option.splits)

theorem delete_file_never_raises_witness:
  "unlink_raises locked_store ''id1'' \<and> delete_file locked_store ''id1'' = Inr locked_store"
  using delete_file_never_raises [of locked_store "''id1''"]
  by (simp add: unlink_raises_def locked_store_def uploaded_store_eq path_exists_def)

text \<open>
  Claim C4, as stated, fails: on a disk that refuses the unlink, \<^verbatim>\<open>delete_file\<close> returns
  and \<^verbatim>\<open>get_file_path\<close> still answers with the path.
\<close>

theorem delete_file_isolation_counterexample:
  "delete_file locked_store ''id1'' = Inr locked_store \<and>
   get_file_path (fst locked_store) ''id1'' = Inr ''/tmp/vpa/uploads/id1.pdf''"
  by (simp add: delete_file_def delete_file_body_def try_except_def unlink_def
        get_file_path_def locked_store_def uploaded_store_eq path_exists_def)

text \<open>
  Claim C4, amended. When the unlink does not raise (the id is unknown, its file is already
  gone, or the unlink succeeds), then after \<^verbatim>\<open>delete_file\<close> returns both \<^verbatim>\<open>get_file_path\<close>
  and \<^verbatim>\<open>get_file_info\<close> fail with "File not found", a second \<^verbatim>\<open>delete_file\<close> changes
  nothing, and deleting an id that never existed changes nothing.
\<close>

theorem delete_file_isolation:
  assumes h: "\<not> unlink_raises st file_id"
  shows "\<exists>st'. delete_file st file_id = Inr st' \<and>
     get_file_path (fst st') file_id = Inl (ValueError (''File not found: '' @ file_id)) \<and>
     get_file_info (fst st') file_id = Inl (ValueError (''File not found: '' @ file_id)) \<and>
     delete_file st' file_id = Inr st' \<and>
     (map_of (metadata (fst st)) file_id = None \<longrightarrow> st' = st)"
proof -
  obtain st' where d: "delete_file st file_id = Inr st'"
    using delete_file_total by blast
  have gone: "map_of (metadata (fst st')) file_id = None"
    using delete_file_removes [OF h d] .
  have a: "get_file_path (fst st') file_id = Inl (ValueError (''File not found: '' @ file_id))"
    using gone by (simp add: get_file_path_def)
  have b: "get_file_info (fst st') file_id = Inl (ValueError (''File not found: '' @ file_id))"
    using gone by (simp add: get_file_info_def)
  have c: "delete_file st' file_id = Inr st'"
    using gone by (rule delete_file_absent)
  have e: "map_of (metadata (fst st)) file_id = None \<longrightarrow> st' = st"
  proof
    assume "map_of (metadata (fst st)) file_id = None"
    then have "delete_file st file_id = Inr st" by (rule delete_file_absent)
    with d show "st' = st" by simp
  qed
  show ?thesis
    by (rule exI [of _ st']) (intro conjI d a b c e)
qed

theorem delete_file_isolation_witness:
  "\<not> unlink_raises uploaded_store ''id1'' \<and>
   (\<exists>st'. delete_file uploaded_store ''id1'' = Inr st' \<and>
     get_file_path (fst st') ''id1'' = Inl (ValueError ''File not found: id1'') \<and>
     get_file_info (fst st') ''id1'' = Inl (ValueError ''File not found: id1'') \<and>
     delete_file st' ''id1'' = Inr st')"
proof -
  have h: "\<not> unlink_raises uploaded_store ''id1''"
    by (simp add: unlink_raises_def uploaded_store_eq path_exists_def)
  from delete_file_isolation [OF h] obtain st' where
    d: "delete_file uploaded_store ''id1'' = Inr st'" and
    a: "get_file_path (fst st') ''id1'' = Inl (ValueError (''File not found: '' @ ''id1''))" and
    b: "get_file_info (fst st') ''id1'' = Inl (ValueError (''File not found: '' @ ''id1''))" and
    c: "delete_file st' ''id1'' = Inr st'"
    by (elim exE conjE)
  have a': "get_file_path (fst st') ''id1'' = Inl (ValueError ''File not found: id1'')"
    using a by simp
  have b': "get_file_info (fst st') ''id1'' = Inl (ValueError ''File not found: id1'')"
    using b by simp
  show ?thesis
    by (rule conjI [OF h]) (rule exI [of _ st'], intro conjI d a' b' c)
qed

section \<open>The periodic sweep\<close>

text \<open>
  Every entry written by \<^verbatim>\<open>save_upload\<close> holds its creation time as a non-empty string.
  On such a store the sweep raises \<^verbatim>\<open>TypeError\<close> at the first comparison, whatever the
  clock and the threshold are; the handler returns 0 and nothing is deleted.
\<close>

lemma cleanup_old_files_str_created_at:
  "list_all (\<lambda>kv. \<exists>s. created_at (snd kv) = PyStr s \<and> s \<noteq> []) (metadata (fst st)) \<Longrightarrow>
   cleanup_old_files st now hours = (0, st)"
  by (cases "metadata (fst st)") (auto simp: cleanup_old_files_def dict_keys_def)

text \<open>
  Claim C1 (the code departs from it). A file uploaded at 2024-01-01T00:00:00 is three
  hours old when the sweep runs at 03:00:00 with a threshold of one hour. The sweep
  returns 0 and the file is still there.
\<close>

theorem cleanup_old_files_keeps_old_upload:
  "cleanup_old_files uploaded_store 1704078000000000 1 = (0, uploaded_store) \<and>
   file_exists uploaded_store ''id1''"
  by (simp add: cleanup_old_files_def dict_keys_def file_exists_def uploaded_store_eq
        path_exists_def)

section \<open>Opening a file whose bytes are gone\<close>

text \<open>
  Claim C8 (the code departs from it). The id \<open>id1\<close> has a metadata entry and no file on the
  disk; \<open>id2\<close> is unknown. The download endpoint answers 404 for the first and 500 for the
  second, and \<^verbatim>\<open>get_file_path\<close> itself returns the path for the first and raises for the
  second.
\<close>

theorem download_file_distinguishes_missing_from_unknown:
  "download_file orphaned_store ''id1'' =
     Inl (HTTPException 404 ''File not found or has expired: id1'') \<and>
   download_file orphaned_store ''id2'' =
     Inl (HTTPException 500 ''Failed to download file: File not found: id2'') \<and>
   get_file_path (fst orphaned_store) ''id1'' = Inr ''/tmp/vpa/uploads/id1.pdf'' \<and>
   get_file_path (fst orphaned_store) ''id2'' = Inl (ValueError ''File not found: id2'')"
  by (simp add: download_file_def download_file_body_def get_file_path_def get_file_info_def
        orphaned_store_def uploaded_store_eq path_exists_def)

section \<open>Sanitizing a file name\<close>

lemma sanitize_long_name:
  "sanitize_filename (replicate 249 CHR ''a'' @ ''.bbbbbbbbbb.pdf'') =
   replicate 249 CHR ''a'' @ ''..pdf''"
  by code_simp

lemma contains_dotdot_long: "contains ''..'' (replicate 249 CHR ''a'' @ ''..pdf'')"
  by code_simp

lemma sanitize_long_extension:
  "length (sanitize_filename (''a.'' @ replicate 300 CHR ''b'')) = 302"
  by code_simp

text \<open>
  Claim C3 (the code departs from it). For a name of 264 characters whose 250th character
  is a dot, the length cap cuts the stem right after that dot and appends the extension:
  the result contains \<^verbatim>\<open>..\<close>. And the cap does not bound the extension: a name with an
  extension of 301 characters comes back 302 characters long.
\<close>

theorem sanitize_filename_truncation_makes_dotdot:
  "contains ''..'' (sanitize_filename (replicate 249 CHR ''a'' @ ''.bbbbbbbbbb.pdf'')) \<and>
   length (sanitize_filename (''a.'' @ replicate 300 CHR ''b'')) = 302"
  using contains_dotdot_long sanitize_long_extension
  by (simp only: sanitize_long_name simp_thms)

section \<open>The shape of an upload path\<close>

lemma split_sep_no_sep: "p \<in> set (split_sep c s) \<Longrightarrow> c \<notin> set p"
  by (induction s arbitrary: p) (auto split: if_splits list.splits)

lemma path_name_no_slash: "CHR ''/'' \<notin> set (path_name p)"
proof (cases "filter (\<lambda>c. c \<noteq> [] \<and> c \<noteq> ''.'') (split_sep CHR ''/'' p)")
  case Nil
  then show ?thesis by (simp add: path_name_def)
next
  case (Cons c cs)
  then have "last (c # cs) \<in> set (split_sep CHR ''/'' p)"
    by (metis (no_types, lifting) filter_is_subset last_in_set list.distinct(1) subsetD)
  then show ?thesis
    using Cons split_sep_no_sep by (simp add: path_name_def)
qed

lemma rfind_nth:
  assumes h: "0 \<le> rfind c s"
  shows "nat (rfind c s) < length s \<and> s ! nat (rfind c s) = c"
proof -
  from h have mem: "c \<in> set s" by (auto simp: rfind_def split: if_splits)
  let ?k = "length (takeWhile (\<lambda>x. x \<noteq> c) (rev s))"
  have "dropWhile (\<lambda>x. x \<noteq> c) (rev s) \<noteq> []"
    using mem by (simp add: dropWhile_eq_Nil_conv)
  moreover have "length (takeWhile (\<lambda>x. x \<noteq> c) (rev s)) +
      length (dropWhile (\<lambda>x. x \<noteq> c) (rev s)) = length (rev s)"
    by (metis length_append takeWhile_dropWhile_id)
  ultimately have k: "?k < length (rev s)"
    by (cases "dropWhile (\<lambda>x. x \<noteq> c) (rev s)") auto
  have "rev s ! ?k = c"
    using nth_length_takeWhile [OF k] by simp
  moreover have "rev s ! ?k = s ! (length s - Suc ?k)"
    using k by (simp add: rev_nth)
  moreover have "nat (rfind c s) = length s - Suc ?k"
    using mem k by (simp add: rfind_def)
  ultimately show ?thesis using k by simp
qed

lemma path_suffix_hd: "path_suffix p \<noteq> [] \<Longrightarrow> hd (path_suffix p) = CHR ''.''"
  using rfind_nth [of "CHR ''.''" "path_name p"]
  by (auto simp: path_suffix_def Let_def hd_drop_conv_nth split: if_splits)

lemma path_suffix_no_slash: "CHR ''/'' \<notin> set (path_suffix p)"
  using path_name_no_slash [of p]
  by (auto simp: path_suffix_def Let_def dest: in_set_dropD)

lemma suffix_a_txt: "path_suffix (sanitize_filename ''a.txt'') = ''.txt''"
  by code_simp

lemma upload_file_path_shape:
  assumes "take 1 file_id \<noteq> ''/''"
  shows "\<exists>ext. upload_file_path fm file_id original_filename =
                 uploads_dir fm @ ''/'' @ file_id @ ext \<and>
      ext = (if path_suffix (sanitize_filename original_filename) = [] then ''.pdf''
             else path_suffix (sanitize_filename original_filename)) \<and>
      hd ext = CHR ''.'' \<and> CHR ''/'' \<notin> set ext"
proof -
  let ?ext = "if path_suffix (sanitize_filename original_filename) = [] then ''.pdf''
             else path_suffix (sanitize_filename original_filename)"
  have hd: "hd ?ext = CHR ''.''" using path_suffix_hd by simp
  have ne: "?ext \<noteq> []" by simp
  have ns: "CHR ''/'' \<notin> set ?ext" using path_suffix_no_slash by simp
  have "take 1 (file_id @ ?ext) \<noteq> ''/''"
  proof (cases file_id)
    case Nil
    then show ?thesis using hd ne by (cases ?ext) auto
  next
    case (Cons a as)
    then show ?thesis using assms by simp
  qed
  then have "upload_file_path fm file_id original_filename =
      uploads_dir fm @ ''/'' @ file_id @ ?ext"
    by (simp add: upload_file_path_def path_join_def Let_def)
  then show ?thesis using hd ns by blast
qed

section \<open>Saving an upload\<close>

lemma map_of_dict_set_same [simp]: "map_of (dict_set k v d) k = Some v"
  by (induction d) auto

lemma save_upload_failure:
  assumes "write_behaviour (snd st) (upload_file_path (fst st) file_id original_filename)
             \<noteq> WriteOk"
  shows "(\<exists>msg. fst (save_upload st file_id now_iso content original_filename)
                  = Inl (ValueError msg)) \<and>
     metadata (fst (snd (save_upload st file_id now_iso content original_filename)))
       = metadata (fst st)"
  using assms
  by (cases "write_behaviour (snd st) (upload_file_path (fst st) file_id original_filename)")
     (simp_all add: save_upload_def write_bytes_def Let_def)

lemma save_upload_success:
  assumes "write_behaviour (snd st) (upload_file_path (fst st) file_id original_filename)
             = WriteOk"
  shows "fst (save_upload st file_id now_iso content original_filename) = Inr file_id \<and>
     get_file_path (fst (snd (save_upload st file_id now_iso content original_filename)))
         file_id
       = Inr (upload_file_path (fst st) file_id original_filename) \<and>
     files (snd (snd (save_upload st file_id now_iso content original_filename)))
       (upload_file_path (fst st) file_id original_filename) = Some content"
  using assms
  by (simp add: save_upload_def write_bytes_def Let_def get_file_path_def)

lemma save_upload_states_fully_written:
  assumes fresh: "map_of (metadata (fst st)) file_id = None"
  shows "list_all
     (fully_written file_id (upload_file_path (fst st) file_id original_filename) content)
     (save_upload_states st file_id now_iso content original_filename)"
proof (cases "write_behaviour (snd st) (upload_file_path (fst st) file_id original_filename)")
  case WriteOk
  then show ?thesis
    using fresh save_upload_success [OF WriteOk, of now_iso content]
    by (simp add: save_upload_states_def Let_def fully_written_def during_write_def
          list_all_iff)
next
  case OpenFails
  then show ?thesis
    using fresh by (simp add: save_upload_states_def Let_def fully_written_def)
next
  case (WriteFailsAfter k)
  then show ?thesis
    using fresh
    by (simp add: save_upload_states_def Let_def fully_written_def during_write_def
          list_all_iff)
qed

lemma save_upload_states_last:
  "last (save_upload_states st file_id now_iso content original_filename) =
   snd (save_upload st file_id now_iso content original_filename)"
proof (cases "write_behaviour (snd st) (upload_file_path (fst st) file_id original_filename)")
  case WriteOk
  then show ?thesis by (simp add: save_upload_states_def Let_def)
next
  case OpenFails
  then show ?thesis
    by (simp add: save_upload_states_def save_upload_def write_bytes_def Let_def)
next
  case (WriteFailsAfter k)
  have "take (min k (length content)) content = take k content"
    by (simp add: min_def)
  then show ?thesis
    using WriteFailsAfter
    by (simp add: save_upload_states_def save_upload_def write_bytes_def Let_def
          during_write_def last_map del: upt_Suc)
qed

text \<open>
  Claim C6. For a fresh id: if the write fails, \<^verbatim>\<open>save_upload\<close> raises \<^verbatim>\<open>ValueError\<close> and the
  metadata dict is what it was, so the id has no entry; if the write succeeds, the id is
  returned, its entry points at the file and the file holds the whole content. In every
  store the call passes through, from the first byte written to the dict assignment, an
  entry for the id is there only when the file is complete; the last of these stores is the
  one the call leaves behind.
\<close>

theorem save_upload_all_or_nothing:
  assumes fresh: "map_of (metadata (fst st)) file_id = None"
  shows "(if write_behaviour (snd st) (upload_file_path (fst st) file_id original_filename)
            = WriteOk
          then fst (save_upload st file_id now_iso content original_filename) = Inr file_id \<and>
               get_file_path
                 (fst (snd (save_upload st file_id now_iso content original_filename))) file_id
                 = Inr (upload_file_path (fst st) file_id original_filename) \<and>
               files (snd (snd (save_upload st file_id now_iso content original_filename)))
                 (upload_file_path (fst st) file_id original_filename) = Some content
          else (\<exists>msg. fst (save_upload st file_id now_iso content original_filename)
                         = Inl (ValueError msg)) \<and>
               map_of (metadata
                 (fst (snd (save_upload st file_id now_iso content original_filename))))
                 file_id = None) \<and>
         list_all
           (fully_written file_id (upload_file_path (fst st) file_id original_filename)
              content)
           (save_upload_states st file_id now_iso content original_filename) \<and>
         last (save_upload_states st file_id now_iso content original_filename) =
           snd (save_upload st file_id now_iso content original_filename)"
proof (cases "write_behaviour (snd st) (upload_file_path (fst st) file_id original_filename)
                = WriteOk")
  case True
  then show ?thesis
    using save_upload_success [OF True, of now_iso content]
      save_upload_states_fully_written [OF fresh, of original_filename content now_iso]
      save_upload_states_last [of st file_id now_iso content original_filename]
    by simp
next
  case False
  then show ?thesis
    using save_upload_failure [OF False, of now_iso content] fresh
      save_upload_states_fully_written [OF fresh, of original_filename content now_iso]
      save_upload_states_last [of st file_id now_iso content original_filename]
    by simp
qed

theorem save_upload_all_or_nothing_witness:
  "map_of (metadata (fst empty_store)) ''id1'' = None \<and>
   fst (save_upload empty_store ''id1'' ''2024-01-01T00:00:00.000000'' ''%PDF-1.4'' ''a.pdf'')
     = Inr ''id1'' \<and>
   map_of (metadata (fst full_disk_store)) ''id1'' = None \<and>
   (\<exists>msg. fst (save_upload full_disk_store ''id1'' ''2024-01-01T00:00:00.000000''
                  ''%PDF-1.4'' ''a.pdf'') = Inl (ValueError msg)) \<and>
   map_of (metadata (fst (snd (save_upload full_disk_store ''id1''
      ''2024-01-01T00:00:00.000000'' ''%PDF-1.4'' ''a.pdf'')))) ''id1'' = None"
proof -
  have f1: "map_of (metadata (fst empty_store)) ''id1'' = None"
    by (simp add: empty_store_def)
  have f2: "map_of (metadata (fst full_disk_store)) ''id1'' = None"
    by (simp add: full_disk_store_def empty_store_def)
  have w1: "write_behaviour (snd empty_store)
      (upload_file_path (fst empty_store) ''id1'' ''a.pdf'') = WriteOk"
    by (simp add: empty_store_def)
  have w2: "write_behaviour (snd full_disk_store)
      (upload_file_path (fst full_disk_store) ''id1'' ''a.pdf'') \<noteq> WriteOk"
    by (simp add: full_disk_store_def)
  from save_upload_all_or_nothing
         [OF f1, of "''a.pdf''" "''2024-01-01T00:00:00.000000''" "''%PDF-1.4''"] w1
  have a: "fst (save_upload empty_store ''id1'' ''2024-01-01T00:00:00.000000'' ''%PDF-1.4''
      ''a.pdf'') = Inr ''id1''"
    by simp
  from save_upload_all_or_nothing
         [OF f2, of "''a.pdf''" "''2024-01-01T00:00:00.000000''" "''%PDF-1.4''"] w2
  have b: "(\<exists>msg. fst (save_upload full_disk_store ''id1'' ''2024-01-01T00:00:00.000000''
                  ''%PDF-1.4'' ''a.pdf'') = Inl (ValueError msg)) \<and>
     map_of (metadata (fst (snd (save_upload full_disk_store ''id1''
      ''2024-01-01T00:00:00.000000'' ''%PDF-1.4'' ''a.pdf'')))) ''id1'' = None"
    by simp
  show ?thesis using f1 f2 a b by (intro conjI) simp_all
qed

section \<open>The location of the written bytes\<close>

lemma upload_path_id1_txt:
  "upload_file_path (fst empty_store) ''id1'' ''a.txt'' = ''/tmp/vpa/uploads/id1.txt''"
  by code_simp

lemma save_upload_frame:
  "q \<noteq> upload_file_path (fst st) file_id original_filename \<Longrightarrow>
   files (snd (snd (save_upload st file_id now_iso content original_filename))) q =
   files (snd st) q"
  by (cases "write_behaviour (snd st) (upload_file_path (fst st) file_id original_filename)")
     (simp_all add: save_upload_def write_bytes_def Let_def)

lemma save_upload_returns_only_after_write:
  "fst (save_upload st file_id now_iso content original_filename) = Inr file_id' \<Longrightarrow>
   write_behaviour (snd st) (upload_file_path (fst st) file_id original_filename) = WriteOk"
  by (cases "write_behaviour (snd st) (upload_file_path (fst st) file_id original_filename)")
     (simp_all add: save_upload_def write_bytes_def Let_def)

lemma save_upload_empty_store_ok:
  "fst (save_upload empty_store file_id now_iso content original_filename) = Inr file_id"
proof -
  have "write_behaviour (snd empty_store)
      (upload_file_path (fst empty_store) file_id original_filename) = WriteOk"
    by (simp add: empty_store_def)
  from save_upload_success [OF this] show ?thesis by blast
qed

text \<open>
  Claim C7, as stated, fails: two uploads with the same generated id and two different
  caller-supplied names leave their bytes at two different locations.
\<close>

theorem save_upload_location_depends_on_name_counterexample:
  "files (snd (snd (save_upload empty_store ''id1'' ''2024-01-01T00:00:00.000000''
       ''%PDF-1.4'' ''a.pdf''))) ''/tmp/vpa/uploads/id1.pdf'' = Some ''%PDF-1.4'' \<and>
   files (snd (snd (save_upload empty_store ''id1'' ''2024-01-01T00:00:00.000000''
       ''%PDF-1.4'' ''a.txt''))) ''/tmp/vpa/uploads/id1.pdf'' = None \<and>
   files (snd (snd (save_upload empty_store ''id1'' ''2024-01-01T00:00:00.000000''
       ''%PDF-1.4'' ''a.txt''))) ''/tmp/vpa/uploads/id1.txt'' = Some ''%PDF-1.4''"
proof -
  have w: "\<And>p. write_behaviour (snd empty_store) p = WriteOk"
    by (simp add: empty_store_def)
  have f: "\<And>p. files (snd empty_store) p = None"
    by (simp add: empty_store_def)
  show ?thesis
    unfolding save_upload_def Let_def write_bytes_def upload_path_id1 upload_path_id1_txt w
    by (simp add: f)
qed

text \<open>
  Claim C7, amended. For every \<^verbatim>\<open>save_upload\<close> call, the only location of the disk the call
  writes to is the uploads directory joined with the generated id followed by an
  extension: every other path keeps what it held, and when the call returns the id, that
  location holds the content and is the path recorded for the id. The extension is all
  that comes from the caller-supplied name: it is the suffix of the sanitized name, or
  \<^verbatim>\<open>.pdf\<close> when there is none; it starts with a dot and contains no slash. (The generated
  id, a UUID, does not start with a slash.)
\<close>

theorem save_upload_writes_at_id_path:
  assumes "take 1 file_id \<noteq> ''/''"
  shows "\<exists>ext.
      ext = (if path_suffix (sanitize_filename original_filename) = [] then ''.pdf''
             else path_suffix (sanitize_filename original_filename)) \<and>
      hd ext = CHR ''.'' \<and> CHR ''/'' \<notin> set ext \<and>
      (\<forall>q. q \<noteq> uploads_dir (fst st) @ ''/'' @ file_id @ ext \<longrightarrow>
           files (snd (snd (save_upload st file_id now_iso content original_filename))) q =
           files (snd st) q) \<and>
      (fst (save_upload st file_id now_iso content original_filename) = Inr file_id \<longrightarrow>
           files (snd (snd (save_upload st file_id now_iso content original_filename)))
             (uploads_dir (fst st) @ ''/'' @ file_id @ ext) = Some content \<and>
           get_file_path
             (fst (snd (save_upload st file_id now_iso content original_filename))) file_id
             = Inr (uploads_dir (fst st) @ ''/'' @ file_id @ ext))"
proof -
  from upload_file_path_shape [OF assms, of "fst st" original_filename] obtain ext where
    p: "upload_file_path (fst st) file_id original_filename =
          uploads_dir (fst st) @ ''/'' @ file_id @ ext" and
    e: "ext = (if path_suffix (sanitize_filename original_filename) = [] then ''.pdf''
               else path_suffix (sanitize_filename original_filename))" and
    h: "hd ext = CHR ''.''" and
    n: "CHR ''/'' \<notin> set ext"
    by (elim exE conjE)
  have frame: "\<forall>q. q \<noteq> uploads_dir (fst st) @ ''/'' @ file_id @ ext \<longrightarrow>
           files (snd (snd (save_upload st file_id now_iso content original_filename))) q =
           files (snd st) q"
    using save_upload_frame [of _ st file_id original_filename now_iso content] p by simp
  have ok: "fst (save_upload st file_id now_iso content original_filename) = Inr file_id \<longrightarrow>
           files (snd (snd (save_upload st file_id now_iso content original_filename)))
             (uploads_dir (fst st) @ ''/'' @ file_id @ ext) = Some content \<and>
           get_file_path
             (fst (snd (save_upload st file_id now_iso content original_filename))) file_id
             = Inr (uploads_dir (fst st) @ ''/'' @ file_id @ ext)"
  proof
    assume "fst (save_upload st file_id now_iso content original_filename) = Inr file_id"
    then have "write_behaviour (snd st)
        (upload_file_path (fst st) file_id original_filename) = WriteOk"
      by (rule save_upload_returns_only_after_write)
    from save_upload_success [OF this, of now_iso content] p
    show "files (snd (snd (save_upload st file_id now_iso content original_filename)))
             (uploads_dir (fst st) @ ''/'' @ file_id @ ext) = Some content \<and>
           get_file_path
             (fst (snd (save_upload st file_id now_iso content original_filename))) file_id
             = Inr (uploads_dir (fst st) @ ''/'' @ file_id @ ext)"
      by simp
  qed
  show ?thesis
    by (rule exI [of _ ext]) (intro conjI e h n frame ok)
qed

theorem save_upload_writes_at_id_path_witness:
  "take 1 ''id1'' \<noteq> ''/'' \<and>
   fst (save_upload empty_store ''id1'' ''2024-01-01T00:00:00.000000'' ''%PDF-1.4'' ''a.txt'')
     = Inr ''id1'' \<and>
   files (snd (snd (save_upload empty_store ''id1'' ''2024-01-01T00:00:00.000000''
       ''%PDF-1.4'' ''a.txt''))) ''/tmp/vpa/uploads/id1.txt'' = Some ''%PDF-1.4'' \<and>
   ''/etc/passwd'' \<noteq> ''/tmp/vpa/uploads/id1.txt'' \<and>
   files (snd (snd (save_upload empty_store ''id1'' ''2024-01-01T00:00:00.000000''
       ''%PDF-1.4'' ''a.txt''))) ''/etc/passwd'' = files (snd empty_store) ''/etc/passwd''"
proof -
  have h: "take 1 ''id1'' \<noteq> ''/''" by simp
  have r: "fst (save_upload empty_store ''id1'' ''2024-01-01T00:00:00.000000'' ''%PDF-1.4''
      ''a.txt'') = Inr ''id1''"
    by (rule save_upload_empty_store_ok)
  from save_upload_writes_at_id_path
    [OF h, of "''a.txt''" empty_store "''2024-01-01T00:00:00.000000''" "''%PDF-1.4''"]
  obtain ext where
    e: "ext = (if path_suffix (sanitize_filename ''a.txt'') = [] then ''.pdf''
               else path_suffix (sanitize_filename ''a.txt''))" and
    frame: "\<forall>q. q \<noteq> uploads_dir (fst empty_store) @ ''/'' @ ''id1'' @ ext \<longrightarrow>
           files (snd (snd (save_upload empty_store ''id1'' ''2024-01-01T00:00:00.000000''
             ''%PDF-1.4'' ''a.txt''))) q = files (snd empty_store) q" and
    ok: "fst (save_upload empty_store ''id1'' ''2024-01-01T00:00:00.000000'' ''%PDF-1.4''
             ''a.txt'') = Inr ''id1'' \<longrightarrow>
           files (snd (snd (save_upload empty_store ''id1'' ''2024-01-01T00:00:00.000000''
             ''%PDF-1.4'' ''a.txt''))) (uploads_dir (fst empty_store) @ ''/'' @ ''id1'' @ ext)
             = Some ''%PDF-1.4'' \<and>
           get_file_path (fst (snd (save_upload empty_store ''id1''
             ''2024-01-01T00:00:00.000000'' ''%PDF-1.4'' ''a.txt''))) ''id1''
             = Inr (uploads_dir (fst empty_store) @ ''/'' @ ''id1'' @ ext)"
    by (elim exE conjE)
  have ext: "ext = ''.txt''" using e by (simp add: suffix_a_txt)
  have loc: "uploads_dir (fst empty_store) @ ''/'' @ ''id1'' @ ext = ''/tmp/vpa/uploads/id1.txt''"
    using ext by (simp add: empty_store_def)
  have d: "''/etc/passwd'' \<noteq> ''/tmp/vpa/uploads/id1.txt''" by simp
  from ok r have a: "files (snd (snd (save_upload empty_store ''id1''
       ''2024-01-01T00:00:00.000000'' ''%PDF-1.4'' ''a.txt''))) ''/tmp/vpa/uploads/id1.txt''
       = Some ''%PDF-1.4''"
    unfolding loc by (elim impE conjE)
  have b: "files (snd (snd (save_upload empty_store ''id1'' ''2024-01-01T00:00:00.000000''
       ''%PDF-1.4'' ''a.txt''))) ''/etc/passwd'' = files (snd empty_store) ''/etc/passwd''"
    by (rule frame [rule_format, of "''/etc/passwd''", unfolded loc, OF d])
  show ?thesis by (intro conjI h r a d b)
qed

section \<open>Registering a deferred deletion\<close>

text \<open>
  Claim C2, as stated, fails. Two calls of \<^verbatim>\<open>schedule_cleanup\<close> for the same id, the first
  with a delay of 100 seconds and the second with 1000 seconds, leave two pending
  deadlines; and the file is gone once the first of them has come, not the most recently
  registered one.
\<close>

theorem schedule_cleanup_twice_counterexample:
  "pending_deadlines
     (schedule_cleanup (schedule_cleanup [] 0 ''id1'' 100) 0 ''id1'' 1000) ''id1''
     = [100000000, 1000000000] \<and>
   get_file_path (fst (snd (run_due 100000000
       (schedule_cleanup (schedule_cleanup [] 0 ''id1'' 100) 0 ''id1'' 1000, uploaded_store))))
     ''id1'' = Inl (ValueError ''File not found: id1'')"
  by (simp add: pending_deadlines_def schedule_cleanup_def timedelta_seconds_def run_due_def
        resume_cleanup_def delete_file_def delete_file_body_def try_except_def unlink_def
        get_file_path_def uploaded_store_eq path_exists_def dict_del_def)

lemma map_of_dict_del_other: "k' \<noteq> k \<Longrightarrow> map_of (dict_del k d) k' = map_of d k'"
  by (induction d) (auto simp: dict_del_def)

lemma resume_cleanup_unlink_fails:
  "unlink_fails (snd (resume_cleanup st task)) = unlink_fails (snd st)"
  by (auto simp: resume_cleanup_def delete_file_def delete_file_body_def try_except_def
        unlink_def split: option.splits sum.splits)

lemma resume_cleanup_other:
  "target task \<noteq> k \<Longrightarrow>
   map_of (metadata (fst (resume_cleanup st task))) k = map_of (metadata (fst st)) k"
  by (auto simp: resume_cleanup_def delete_file_def delete_file_body_def try_except_def
        unlink_def map_of_dict_del_other split: option.splits sum.splits)

lemma resume_cleanup_entry:
  "map_of (metadata (fst (resume_cleanup st task))) k = None \<or>
   map_of (metadata (fst (resume_cleanup st task))) k = map_of (metadata (fst st)) k"
proof (cases "target task = k")
  case False
  then show ?thesis by (simp add: resume_cleanup_other)
next
  case True
  then show ?thesis
    by (auto simp: resume_cleanup_def delete_file_def delete_file_body_def try_except_def
          unlink_def split: option.splits sum.splits)
qed

lemma resume_cleanup_deletes:
  "\<not> unlink_refused st (target task) \<Longrightarrow>
   map_of (metadata (fst (resume_cleanup st task))) (target task) = None"
  by (auto simp: resume_cleanup_def delete_file_def delete_file_body_def try_except_def
        unlink_def unlink_refused_def split: option.splits sum.splits)

lemma resume_cleanup_keeps_not_refused:
  assumes "\<not> unlink_refused st k"
  shows "\<not> unlink_refused (resume_cleanup st task) k"
proof -
  from resume_cleanup_entry [of st task k] show ?thesis
  proof
    assume "map_of (metadata (fst (resume_cleanup st task))) k = None"
    then show ?thesis by (simp add: unlink_refused_def)
  next
    assume "map_of (metadata (fst (resume_cleanup st task))) k = map_of (metadata (fst st)) k"
    then show ?thesis
      using assms
      by (simp add: unlink_refused_def resume_cleanup_unlink_fails split: option.splits)
  qed
qed

lemma fold_resume_other:
  "\<forall>t \<in> set due. target t \<noteq> k \<Longrightarrow>
   map_of (metadata (fst (fold (\<lambda>t st. resume_cleanup st t) due st))) k =
   map_of (metadata (fst st)) k"
  by (induction due arbitrary: st) (simp_all add: resume_cleanup_other)

lemma fold_resume_gone:
  "map_of (metadata (fst st)) k = None \<Longrightarrow>
   map_of (metadata (fst (fold (\<lambda>t st. resume_cleanup st t) due st))) k = None"
proof (induction due arbitrary: st)
  case Nil
  then show ?case by simp
next
  case (Cons t due)
  from resume_cleanup_entry [of st t k] Cons.prems
  have "map_of (metadata (fst (resume_cleanup st t))) k = None" by auto
  from Cons.IH [OF this] show ?case by simp
qed

lemma fold_resume_deletes:
  "\<not> unlink_refused st k \<Longrightarrow> \<exists>t \<in> set due. target t = k \<Longrightarrow>
   map_of (metadata (fst (fold (\<lambda>t st. resume_cleanup st t) due st))) k = None"
proof (induction due arbitrary: st)
  case Nil
  then show ?case by simp
next
  case (Cons t due)
  show ?case
  proof (cases "target t = k")
    case True
    with Cons.prems(1) have "map_of (metadata (fst (resume_cleanup st t))) k = None"
      using resume_cleanup_deletes [of st t] by simp
    from fold_resume_gone [OF this] show ?thesis by simp
  next
    case False
    with Cons.prems(2) have ex: "\<exists>t \<in> set due. target t = k" by auto
    have nr: "\<not> unlink_refused (resume_cleanup st t) k"
      using Cons.prems(1) by (rule resume_cleanup_keeps_not_refused)
    from Cons.IH [OF nr ex] show ?thesis by simp
  qed
qed

lemma run_due_before_deadlines:
  assumes "\<forall>d \<in> set (pending_deadlines tasks k). now < d"
  shows "map_of (metadata (fst (snd (run_due now (tasks, st))))) k =
         map_of (metadata (fst st)) k"
proof -
  have "\<forall>t \<in> set (sort_key wake_at (filter (\<lambda>t. wake_at t \<le> now) tasks)). target t \<noteq> k"
    using assms by (auto simp: pending_deadlines_def)
  from fold_resume_other [OF this] show ?thesis by (simp add: run_due_def)
qed

lemma run_due_after_deadline:
  assumes "\<exists>d \<in> set (pending_deadlines tasks k). d \<le> now"
    and "\<not> unlink_refused st k"
  shows "map_of (metadata (fst (snd (run_due now (tasks, st))))) k = None"
proof -
  have "\<exists>t \<in> set (sort_key wake_at (filter (\<lambda>t. wake_at t \<le> now) tasks)). target t = k"
    using assms(1) by (auto simp: pending_deadlines_def)
  from fold_resume_deletes [OF assms(2) this] show ?thesis by (simp add: run_due_def)
qed

text \<open>
  Claim C2, amended. Every call of \<^verbatim>\<open>schedule_cleanup\<close> registers one more pending
  deferred deletion for its id, with the deadline "now plus the delay"; the deadlines
  registered before, for the same id and for every other id, stay pending. Each of them
  fires on its own: as long as every deadline registered for an id lies in the future, the
  event loop leaves the id's entry as it is, and once the loop has run at or after any of
  them -- so from the earliest one on, not from the most recently registered one -- the
  deferred Delete has run and, unless the disk refuses the unlink, the id is gone.
\<close>

theorem schedule_cleanup_every_deadline_fires:
  "pending_deadlines (schedule_cleanup tasks now file_id delay_seconds) other_id =
     pending_deadlines tasks other_id @
     (if other_id = file_id then [now + timedelta_seconds delay_seconds] else []) \<and>
   ((\<forall>d \<in> set (pending_deadlines (schedule_cleanup tasks now file_id delay_seconds) file_id).
        t < d) \<longrightarrow>
      map_of (metadata (fst (snd (run_due t
        (schedule_cleanup tasks now file_id delay_seconds, st))))) file_id =
      map_of (metadata (fst st)) file_id) \<and>
   ((\<exists>d \<in> set (pending_deadlines (schedule_cleanup tasks now file_id delay_seconds) file_id).
        d \<le> t) \<and> \<not> unlink_refused st file_id \<longrightarrow>
      get_file_path (fst (snd (run_due t
        (schedule_cleanup tasks now file_id delay_seconds, st)))) file_id =
      Inl (ValueError (''File not found: '' @ file_id)))"
proof (intro conjI impI)
  show "pending_deadlines (schedule_cleanup tasks now file_id delay_seconds) other_id =
     pending_deadlines tasks other_id @
     (if other_id = file_id then [now + timedelta_seconds delay_seconds] else [])"
    by (simp add: pending_deadlines_def schedule_cleanup_def)
next
  assume "\<forall>d \<in> set (pending_deadlines (schedule_cleanup tasks now file_id delay_seconds)
             file_id). t < d"
  then show "map_of (metadata (fst (snd (run_due t
        (schedule_cleanup tasks now file_id delay_seconds, st))))) file_id =
      map_of (metadata (fst st)) file_id"
    by (rule run_due_before_deadlines)
next
  assume a: "(\<exists>d \<in> set (pending_deadlines (schedule_cleanup tasks now file_id delay_seconds)
             file_id). d \<le> t) \<and> \<not> unlink_refused st file_id"
  then have "map_of (metadata (fst (snd (run_due t
        (schedule_cleanup tasks now file_id delay_seconds, st))))) file_id = None"
    using run_due_after_deadline by blast
  then show "get_file_path (fst (snd (run_due t
        (schedule_cleanup tasks now file_id delay_seconds, st)))) file_id =
      Inl (ValueError (''File not found: '' @ file_id))"
    by (simp add: get_file_path_def)
qed

lemma not_refused_uploaded: "\<not> unlink_refused uploaded_store ''id1''"
  by (simp add: unlink_refused_def uploaded_store_eq)

lemma deadlines_twice:
  "pending_deadlines (schedule_cleanup (schedule_cleanup [] 0 ''id1'' 100) 0 ''id1'' 1000)
     ''id1'' = [100000000, 1000000000]"
  by (simp add: pending_deadlines_def schedule_cleanup_def timedelta_seconds_def)

theorem schedule_cleanup_every_deadline_fires_witness:
  "pending_deadlines (schedule_cleanup (schedule_cleanup [] 0 ''id1'' 100) 0 ''id1'' 1000)
     ''id1'' = [100000000, 1000000000] \<and>
   get_file_path (fst (snd (run_due 50000000
     (schedule_cleanup (schedule_cleanup [] 0 ''id1'' 100) 0 ''id1'' 1000, uploaded_store))))
     ''id1'' = Inr ''/tmp/vpa/uploads/id1.pdf'' \<and>
   \<not> unlink_refused uploaded_store ''id1'' \<and>
   get_file_path (fst (snd (run_due 100000000
     (schedule_cleanup (schedule_cleanup [] 0 ''id1'' 100) 0 ''id1'' 1000, uploaded_store))))
     ''id1'' = Inl (ValueError ''File not found: id1'')"
proof -
  have before: "\<forall>d \<in> set (pending_deadlines
        (schedule_cleanup (schedule_cleanup [] 0 ''id1'' 100) 0 ''id1'' 1000) ''id1'').
      50000000 < d"
    by (simp add: deadlines_twice)
  have after: "\<exists>d \<in> set (pending_deadlines
        (schedule_cleanup (schedule_cleanup [] 0 ''id1'' 100) 0 ''id1'' 1000) ''id1'').
      d \<le> 100000000"
    by (simp add: deadlines_twice)
  note nr = not_refused_uploaded
  note w1 = schedule_cleanup_every_deadline_fires
    [of "schedule_cleanup [] 0 ''id1'' 100" 0 "''id1''" 1000 "''id1''" 50000000 uploaded_store]
  note w2 = schedule_cleanup_every_deadline_fires
    [of "schedule_cleanup [] 0 ''id1'' 100" 0 "''id1''" 1000 "''id1''" 100000000 uploaded_store]
  from w1 have "(\<forall>d \<in> set (pending_deadlines
        (schedule_cleanup (schedule_cleanup [] 0 ''id1'' 100) 0 ''id1'' 1000) ''id1'').
      50000000 < d) \<longrightarrow>
      map_of (metadata (fst (snd (run_due 50000000
        (schedule_cleanup (schedule_cleanup [] 0 ''id1'' 100) 0 ''id1'' 1000,
         uploaded_store))))) ''id1'' =
      map_of (metadata (fst uploaded_store)) ''id1''"
    by (elim conjE)
  from this before have same: "map_of (metadata (fst (snd (run_due 50000000
        (schedule_cleanup (schedule_cleanup [] 0 ''id1'' 100) 0 ''id1'' 1000,
         uploaded_store))))) ''id1'' =
      map_of (metadata (fst uploaded_store)) ''id1''"
    by (rule mp)
  have a: "get_file_path (fst (snd (run_due 50000000
     (schedule_cleanup (schedule_cleanup [] 0 ''id1'' 100) 0 ''id1'' 1000, uploaded_store))))
     ''id1'' = Inr ''/tmp/vpa/uploads/id1.pdf''"
    unfolding get_file_path_def same by (simp add: uploaded_store_eq)
  from w2 have "(\<exists>d \<in> set (pending_deadlines
        (schedule_cleanup (schedule_cleanup [] 0 ''id1'' 100) 0 ''id1'' 1000) ''id1'').
      d \<le> 100000000) \<and> \<not> unlink_refused uploaded_store ''id1'' \<longrightarrow>
      get_file_path (fst (snd (run_due 100000000
        (schedule_cleanup (schedule_cleanup [] 0 ''id1'' 100) 0 ''id1'' 1000,
         uploaded_store)))) ''id1'' =
      Inl (ValueError (''File not found: '' @ ''id1''))"
    by (elim conjE)
  from this conjI [OF after nr] have "get_file_path (fst (snd (run_due 100000000
        (schedule_cleanup (schedule_cleanup [] 0 ''id1'' 100) 0 ''id1'' 1000,
         uploaded_store)))) ''id1'' =
      Inl (ValueError (''File not found: '' @ ''id1''))"
    by (rule mp)
  then have b: "get_file_path (fst (snd (run_due 100000000
     (schedule_cleanup (schedule_cleanup [] 0 ''id1'' 100) 0 ''id1'' 1000, uploaded_store))))
     ''id1'' = Inl (ValueError ''File not found: id1'')"
    by simp
  show ?thesis by (intro conjI deadlines_twice a nr b)
qed

section \<open>The rate limiter\<close>

lemma is_allowed_reject:
  "max_requests \<le> int (length (filter (\<lambda>t. now - timedelta_seconds window_seconds < t)
                                   (requests rl ip))) \<Longrightarrow>
   is_allowed rl now now' ip max_requests window_seconds =
     (False, rl\<lparr>requests := (requests rl)
        (ip := filter (\<lambda>t. now - timedelta_seconds window_seconds < t) (requests rl ip))\<rparr>)"
  by (simp add: is_allowed_def clean_old_requests_def Let_def)

lemma is_allowed_accept:
  "int (length (filter (\<lambda>t. now - timedelta_seconds window_seconds < t) (requests rl ip)))
     < max_requests \<Longrightarrow>
   is_allowed rl now now' ip max_requests window_seconds =
     (True, rl\<lparr>requests := (requests rl)
        (ip := filter (\<lambda>t. now - timedelta_seconds window_seconds < t) (requests rl ip)
               @ [now'])\<rparr>)"
  by (simp add: is_allowed_def clean_old_requests_def Let_def)

lemma is_allowed_cases:
  fixes rl now now' ip max_requests window_seconds
  defines "kept \<equiv> filter (\<lambda>t. now - timedelta_seconds window_seconds < t) (requests rl ip)"
  defines "r \<equiv> is_allowed rl now now' ip max_requests window_seconds"
  shows "fst r = (int (length kept) < max_requests) \<and>
   requests (snd r) ip = (if fst r then kept @ [now'] else kept) \<and>
   (\<forall>ip'. ip' \<noteq> ip \<longrightarrow> requests (snd r) ip' = requests rl ip') \<and>
   upload_requests (snd r) = upload_requests rl"
proof (cases "int (length kept) < max_requests")
  case True
  then show ?thesis
    unfolding r_def kept_def by (simp add: is_allowed_accept)
next
  case False
  then have "max_requests \<le> int (length kept)" by simp
  then show ?thesis
    unfolding r_def kept_def by (simp add: is_allowed_reject)
qed

lemma is_allowed_three_per_minute:
  assumes "t + timedelta_seconds 60 \<le> t'"
  shows "is_allowed_at_times new_rate_limiter ip 3 60 [t, t, t, t, t'] =
         [True, True, True, False, True]"
  using assms
  by (simp add: is_allowed_def clean_old_requests_def Let_def new_rate_limiter_def
        timedelta_seconds_def)

text \<open>
  Claim C5. A call of \<^verbatim>\<open>is_allowed\<close> keeps, of the identity's recorded timestamps, those
  newer than "now minus the window": every older one is discarded (and so is one that lies
  exactly on that instant). If as many as the limit remain, the answer is false and only
  the pruned list is stored; otherwise the answer is true and the new timestamp is
  appended. Other identities and the upload lists are untouched. With a limit of 3 per 60
  seconds, four calls at the same instant answer true, true, true, false, and a call made
  once 60 seconds have elapsed answers true.
\<close>

theorem is_allowed_sliding_window:
  "(\<forall>ts \<in> set (requests rl ip). ts < now - timedelta_seconds window_seconds \<longrightarrow>
      ts \<notin> set (requests (snd (is_allowed rl now now' ip max_requests window_seconds)) ip)
      \<or> ts = now') \<and>
   fst (is_allowed rl now now' ip max_requests window_seconds) =
     (int (length (filter (\<lambda>ts. now - timedelta_seconds window_seconds < ts)
                     (requests rl ip))) < max_requests) \<and>
   requests (snd (is_allowed rl now now' ip max_requests window_seconds)) ip =
     (if fst (is_allowed rl now now' ip max_requests window_seconds)
      then filter (\<lambda>ts. now - timedelta_seconds window_seconds < ts) (requests rl ip) @ [now']
      else filter (\<lambda>ts. now - timedelta_seconds window_seconds < ts) (requests rl ip)) \<and>
   (\<forall>ip'. ip' \<noteq> ip \<longrightarrow>
      requests (snd (is_allowed rl now now' ip max_requests window_seconds)) ip' =
      requests rl ip') \<and>
   upload_requests (snd (is_allowed rl now now' ip max_requests window_seconds)) =
     upload_requests rl \<and>
   (t + timedelta_seconds 60 \<le> t' \<longrightarrow>
      is_allowed_at_times new_rate_limiter ip 3 60 [t, t, t, t, t'] =
      [True, True, True, False, True])"
proof -
  note c = is_allowed_cases [of rl now now' ip max_requests window_seconds]
  have older: "\<forall>ts \<in> set (requests rl ip). ts < now - timedelta_seconds window_seconds \<longrightarrow>
      ts \<notin> set (requests (snd (is_allowed rl now now' ip max_requests window_seconds)) ip)
      \<or> ts = now'"
    using c by (auto split: if_splits)
  show ?thesis
    using older c is_allowed_three_per_minute [of t t' ip] by blast
qed

theorem is_allowed_sliding_window_witness:
  "(0::int) + timedelta_seconds 60 \<le> 60000000 \<and>
   is_allowed_at_times new_rate_limiter ''ip1'' 3 60 [0, 0, 0, 0, 60000000] =
     [True, True, True, False, True] \<and>
   ''ip2'' \<noteq> ''ip1'' \<and>
   requests (snd (is_allowed new_rate_limiter 0 0 ''ip1'' 3 60)) ''ip2'' =
     requests new_rate_limiter ''ip2''"
proof -
  have h: "(0::int) + timedelta_seconds 60 \<le> 60000000"
    by (simp add: timedelta_seconds_def)
  have n: "''ip2'' \<noteq> ''ip1''" by simp
  note w = is_allowed_sliding_window
    [of new_rate_limiter "''ip1''" 0 60 0 3 0 60000000]
  from w have scen: "(0::int) + timedelta_seconds 60 \<le> 60000000 \<longrightarrow>
      is_allowed_at_times new_rate_limiter ''ip1'' 3 60 [0, 0, 0, 0, 60000000] =
      [True, True, True, False, True]"
    by (elim conjE)
  from scen h have a: "is_allowed_at_times new_rate_limiter ''ip1'' 3 60 [0, 0, 0, 0, 60000000] =
     [True, True, True, False, True]"
    by (rule mp)
  from w have others: "\<forall>ip'. ip' \<noteq> ''ip1'' \<longrightarrow>
      requests (snd (is_allowed new_rate_limiter 0 0 ''ip1'' 3 60)) ip' =
      requests new_rate_limiter ip'"
    by (elim conjE)
  from others [rule_format, OF n]
  have b: "requests (snd (is_allowed new_rate_limiter 0 0 ''ip1'' 3 60)) ''ip2'' =
     requests new_rate_limiter ''ip2''" .
  show ?thesis using h n a b by (intro conjI)
qed

section \<open>The life cycle of the cleanup loop\<close>

lemma start_running_noop: "is_running s \<Longrightarrow> start s = s"
  by (simp add: start_def)

lemma filter_update_count:
  "i < length xs \<Longrightarrow>
   length (filter P (xs[i := y])) + (if P (xs ! i) then 1 else 0) =
   length (filter P xs) + (if P y then 1 else 0)"
proof (induction xs arbitrary: i)
  case Nil
  then show ?case by simp
next
  case (Cons x xs)
  show ?case
  proof (cases i)
    case 0
    then show ?thesis by simp
  next
    case (Suc j)
    with Cons.prems have "j < length xs" by simp
    from Cons.IH [OF this] Suc show ?thesis by simp
  qed
qed

lemma resume_loop_stopped:
  assumes "\<not> is_running s"
  shows "\<not> is_running (resume_loop s i) \<and>
     sweeps (resume_loop s i) + asleep_count (resume_loop s i) \<le> sweeps s + asleep_count s"
proof (cases "i < length (loops s)")
  case False
  then show ?thesis using assms by (simp add: resume_loop_def)
next
  case True
  note cnt = filter_update_count [OF True, of "\<lambda>l. l = Asleep" Exited]
  show ?thesis
  proof (cases "loops s ! i")
    case Created
    then show ?thesis using assms True cnt by (simp add: resume_loop_def asleep_count_def)
  next
    case Asleep
    then show ?thesis using assms True cnt by (simp add: resume_loop_def asleep_count_def)
  next
    case Exited
    then show ?thesis using assms True by (simp add: resume_loop_def)
  qed
qed

lemma step_stopped:
  assumes "\<not> is_running s" and "ev \<noteq> Start"
  shows "\<not> is_running (step s ev) \<and>
     sweeps (step s ev) + asleep_count (step s ev) \<le> sweeps s + asleep_count s"
proof (cases ev)
  case Start
  with assms show ?thesis by simp
next
  case Stop
  then show ?thesis using assms by (simp add: stop_def asleep_count_def)
next
  case (Resume i)
  then show ?thesis using resume_loop_stopped [OF assms(1)] by simp
qed

lemma run_events_stopped:
  "\<not> is_running s \<Longrightarrow> Start \<notin> set evs \<Longrightarrow>
   \<not> is_running (run_events s evs) \<and>
   sweeps (run_events s evs) + asleep_count (run_events s evs) \<le> sweeps s + asleep_count s"
proof (induction evs arbitrary: s)
  case Nil
  then show ?case by (simp add: run_events_def)
next
  case (Cons ev evs)
  from Cons.prems have ne: "ev \<noteq> Start" and rest: "Start \<notin> set evs" by auto
  from step_stopped [OF Cons.prems(1) ne]
  have a: "\<not> is_running (step s ev)"
    and b: "sweeps (step s ev) + asleep_count (step s ev) \<le> sweeps s + asleep_count s"
    by simp_all
  from Cons.IH [OF a rest] b show ?case
    by (simp add: run_events_def)
qed

text \<open>
  Claim C9, as stated, fails. The loop is started and goes to sleep; \<^verbatim>\<open>stop\<close> is called, and
  no sweep has run so far. When the sleep is over the loop runs a sweep before it looks at
  the flag.
\<close>

theorem sweep_after_stop_counterexample:
  "sweeps (run_events new_scheduler [Start, Resume 0, Stop]) = 0 \<and>
   sweeps (run_events new_scheduler [Start, Resume 0, Stop, Resume 0]) = 1"
  by (simp add: run_events_def new_scheduler_def start_def stop_def resume_loop_def)

text \<open>
  Claim C9, amended. Calling \<^verbatim>\<open>start\<close> while already running changes nothing: no second
  loop is spawned. After \<^verbatim>\<open>stop\<close>, as long as \<^verbatim>\<open>start\<close> is not called again, the scheduler
  stays stopped and each loop that was asleep runs at most one more sweep, the one that
  follows its sleep, before it sees the flag and ends: the number of sweeps grows by at
  most the number of sleeping loops.
\<close>

theorem start_idempotent_stop_bounds_sweeps:
  "(is_running s \<longrightarrow> start s = s) \<and>
   (Start \<notin> set evs \<longrightarrow>
      \<not> is_running (run_events (stop s) evs) \<and>
      sweeps (run_events (stop s) evs) \<le> sweeps s + asleep_count s)"
proof -
  have st: "\<not> is_running (stop s)" by (simp add: stop_def)
  have eq: "sweeps (stop s) + asleep_count (stop s) = sweeps s + asleep_count s"
    by (simp add: stop_def asleep_count_def)
  show ?thesis
    using start_running_noop [of s] run_events_stopped [OF st, of evs] eq by auto
qed

theorem start_idempotent_stop_bounds_sweeps_witness:
  "is_running (run_events new_scheduler [Start, Resume 0]) \<and>
   start (run_events new_scheduler [Start, Resume 0]) =
     run_events new_scheduler [Start, Resume 0] \<and>
   Start \<notin> set [Resume 0, Resume 0] \<and>
   sweeps (run_events (stop (run_events new_scheduler [Start, Resume 0]))
             [Resume 0, Resume 0]) \<le> 1"
  using start_idempotent_stop_bounds_sweeps
    [of "run_events new_scheduler [Start, Resume 0]" "[Resume 0, Resume 0]"]
  by (simp add: run_events_def new_scheduler_def start_def stop_def resume_loop_def
        asleep_count_def)

end
